theory Spec2Isabelle
  imports Main "HOL-Library.AList"
begin

section \<open>JavaScript values and containers\<close>

text \<open>
  Event payloads arrive from the network, so their fields are arbitrary JSON values.
  The server never computes with them; it only tests them for truthiness and copies
  them around. Numbers are kept as integers (no arithmetic is ever done on them).
\<close>

datatype jsval = JUndefined | JNull | JBool bool | JNum int | JStr string

text \<open>JavaScript truthiness, as used by \<^verbatim>\<open>||\<close> and \<^verbatim>\<open>if (!v)\<close>.\<close>

fun truthy :: "jsval \<Rightarrow> bool" where
  "truthy JUndefined = False"
| "truthy JNull = False"
| "truthy (JBool b) = b"
| "truthy (JNum n) = (n \<noteq> 0)"
| "truthy (JStr s) = (s \<noteq> [])"

text \<open>The only exception the modelled code can raise.\<close>

datatype error = TypeError

text \<open>
  A JavaScript \<^verbatim>\<open>Map\<close> is an association list with distinct keys in insertion order:
  \<^verbatim>\<open>get\<close> is \<^const>\<open>map_of\<close>, \<^verbatim>\<open>set\<close> is \<^const>\<open>AList.update\<close> (an existing key
  keeps its position, a new key goes to the end), \<^verbatim>\<open>delete\<close> is \<^const>\<open>AList.delete\<close>,
  \<^verbatim>\<open>size\<close> is \<^const>\<open>length\<close>.
\<close>

section \<open>The operation ledger (drawingState.js)\<close>

datatype status = InProgress | Active | Undone

record point =
  pt_x :: jsval
  pt_y :: jsval

record operation =
  op_id :: string
  op_userId :: string
  op_username :: jsval
  op_type :: jsval
  op_color :: jsval
  op_width :: jsval
  op_points :: "point list"
  op_timestamp :: nat
  op_status :: status

text \<open>The object literal that \<^verbatim>\<open>getActiveOperations\<close> builds: an operation without its status.\<close>

record operation_view =
  v_id :: string
  v_userId :: string
  v_username :: jsval
  v_type :: jsval
  v_color :: jsval
  v_width :: jsval
  v_points :: "point list"
  v_timestamp :: nat

record drawing_state =
  operations :: "operation list"
  currentIndex :: int
  activeOperations :: "(string \<times> operation) list"

text \<open>The constructor.\<close>

definition new_DrawingState :: drawing_state where
  "new_DrawingState = \<lparr>operations = [], currentIndex = - 1, activeOperations = []\<rparr>"

text \<open>The argument object of \<^verbatim>\<open>startOperation\<close> and the object it returns.\<close>

record start_data =
  sd_userId :: string
  sd_username :: jsval
  sd_x :: jsval
  sd_y :: jsval
  sd_color :: jsval
  sd_width :: jsval
  sd_tool :: jsval

record start_result =
  sr_operationId :: string
  sr_x :: jsval
  sr_y :: jsval
  sr_color :: jsval
  sr_width :: jsval
  sr_tool :: jsval

text \<open>Decimal rendering of a clock value inside a template string.\<close>

definition digit_char :: "nat \<Rightarrow> char" where
  "digit_char d = char_of (48 + d)"

function show_nat :: "nat \<Rightarrow> string" where
  "show_nat n = (if n < 10 then [digit_char n] else show_nat (n div 10) @ [digit_char (n mod 10)])"
  by pat_completeness auto
termination
  by (relation "measure (\<lambda>n. n)") auto

declare show_nat.simps [simp del]

text \<open>\<^verbatim>\<open>`op-${data.userId}-${Date.now()}`\<close>\<close>

definition operationId_of :: "string \<Rightarrow> nat \<Rightarrow> string" where
  "operationId_of uid now = ''op-'' @ uid @ ''-'' @ show_nat now"

text \<open>
  \<^verbatim>\<open>startOperation(data)\<close>. \<^verbatim>\<open>Date.now()\<close> is read twice, once for the id and once for
  the timestamp; both readings are parameters.
\<close>

definition startOperation :: "drawing_state \<Rightarrow> start_data \<Rightarrow> nat \<Rightarrow> nat \<Rightarrow> start_result \<times> drawing_state" where
  "startOperation s data now_id now_ts =
     (let operationId = operationId_of (sd_userId data) now_id;
          operation = \<lparr>op_id = operationId, op_userId = sd_userId data,
                       op_username = sd_username data, op_type = sd_tool data,
                       op_color = sd_color data, op_width = sd_width data,
                       op_points = [\<lparr>pt_x = sd_x data, pt_y = sd_y data\<rparr>],
                       op_timestamp = now_ts, op_status = InProgress\<rparr>
      in (\<lparr>sr_operationId = operationId, sr_x = sd_x data, sr_y = sd_y data,
           sr_color = sd_color data, sr_width = sd_width data, sr_tool = sd_tool data\<rparr>,
          s\<lparr>activeOperations := AList.update operationId operation (activeOperations s)\<rparr>))"

text \<open>\<^verbatim>\<open>this.operations.find(op => op.id === operationId)\<close>, with the index of the hit.\<close>

fun find_index_op :: "string \<Rightarrow> operation list \<Rightarrow> nat option" where
  "find_index_op i [] = None"
| "find_index_op i (x # xs) =
     (if op_id x = i then Some 0
      else (case find_index_op i xs of None \<Rightarrow> None | Some k \<Rightarrow> Some (Suc k)))"

definition find_op :: "string \<Rightarrow> operation list \<Rightarrow> operation option" where
  "find_op i xs = (case find_index_op i xs of None \<Rightarrow> None | Some k \<Rightarrow> Some (xs ! k))"

text \<open>
  \<^verbatim>\<open>addPoints(operationId, points)\<close>. The argument \<open>points\<close> is \<open>None\<close> when the caller
  passed something that cannot be spread (\<^verbatim>\<open>push(...undefined)\<close> raises a TypeError
  before anything is pushed). The operation found in \<open>operations\<close> is the stored
  object itself, so pushing to its points updates the list entry in place.
\<close>

definition addPoints :: "drawing_state \<Rightarrow> string \<Rightarrow> point list option \<Rightarrow> (error + unit) \<times> drawing_state" where
  "addPoints s operationId points =
     (case map_of (activeOperations s) operationId of
        None \<Rightarrow>
          (case find_index_op operationId (operations s) of
             None \<Rightarrow> (Inr (), s)
           | Some k \<Rightarrow>
               (let operation = operations s ! k in
                if op_status operation = Active then
                  (case points of
                     None \<Rightarrow> (Inl TypeError, s)
                   | Some ps \<Rightarrow>
                       (Inr (), s\<lparr>operations := (operations s)
                                    [k := operation\<lparr>op_points := op_points operation @ ps\<rparr>]\<rparr>))
                else (Inr (), s)))
      | Some operation \<Rightarrow>
          (case points of
             None \<Rightarrow> (Inl TypeError, s)
           | Some ps \<Rightarrow>
               (Inr (), s\<lparr>activeOperations :=
                           AList.update operationId (operation\<lparr>op_points := op_points operation @ ps\<rparr>)
                             (activeOperations s)\<rparr>)))"

text \<open>
  \<^verbatim>\<open>endOperation(operationId)\<close>. \<^verbatim>\<open>slice(0, currentIndex + 1)\<close> with a negative end
  counts from the end of the array; with a non-negative end it is \<^const>\<open>take\<close>.
\<close>

definition js_slice0 :: "'a list \<Rightarrow> int \<Rightarrow> 'a list" where
  "js_slice0 xs e =
     (if e < 0 then take (nat (int (length xs) + e)) xs else take (nat e) xs)"

definition endOperation :: "drawing_state \<Rightarrow> string \<Rightarrow> drawing_state" where
  "endOperation s operationId =
     (case map_of (activeOperations s) operationId of
        None \<Rightarrow>
          (case find_op operationId (operations s) of
             Some existingOp \<Rightarrow> s
           | None \<Rightarrow> s)
      | Some operation \<Rightarrow>
          s\<lparr>operations := js_slice0 (operations s) (currentIndex s + 1)
                             @ [operation\<lparr>op_status := Active\<rparr>],
            currentIndex := currentIndex s + 1,
            activeOperations := AList.delete operationId (activeOperations s)\<rparr>)"

text \<open>
  \<^verbatim>\<open>undo()\<close>. The loop walks \<open>currentIndex\<close> down; reading \<^verbatim>\<open>operations[currentIndex]\<close>
  beyond the end gives \<^verbatim>\<open>undefined\<close>, and \<^verbatim>\<open>.status\<close> on it raises. The state
  returned with an exception is the state at the moment of the throw.
\<close>

function undo_loop :: "drawing_state \<Rightarrow> (error + operation option) \<times> drawing_state" where
  "undo_loop s =
     (if currentIndex s \<ge> 0 then
        (if currentIndex s \<ge> int (length (operations s)) then (Inl TypeError, s)
         else
           (let k = nat (currentIndex s); operation = operations s ! k in
            if op_status operation = Active then
              (let operation' = operation\<lparr>op_status := Undone\<rparr> in
               (Inr (Some operation'),
                s\<lparr>operations := (operations s)[k := operation'],
                  currentIndex := currentIndex s - 1\<rparr>))
            else undo_loop (s\<lparr>currentIndex := currentIndex s - 1\<rparr>)))
      else (Inr None, s))"
  by pat_completeness auto
termination
  by (relation "measure (\<lambda>s. nat (currentIndex s + 1))") auto

declare undo_loop.simps [simp del]

definition undo :: "drawing_state \<Rightarrow> (error + operation option) \<times> drawing_state" where
  "undo s = (if currentIndex s < 0 then (Inr None, s) else undo_loop s)"

text \<open>
  \<^verbatim>\<open>redo()\<close>. The \<^verbatim>\<open>for\<close> loop runs a local index \<open>i\<close> upward; a negative \<open>i\<close> reads
  \<^verbatim>\<open>undefined\<close> and raises.
\<close>

function redo_loop :: "drawing_state \<Rightarrow> int \<Rightarrow> (error + operation option) \<times> drawing_state" where
  "redo_loop s i =
     (if i < int (length (operations s)) then
        (if i < 0 then (Inl TypeError, s)
         else
           (let operation = operations s ! nat i in
            if op_status operation = Undone then
              (let operation' = operation\<lparr>op_status := Active\<rparr> in
               (Inr (Some operation'),
                s\<lparr>operations := (operations s)[nat i := operation'], currentIndex := i\<rparr>))
            else redo_loop s (i + 1)))
      else (Inr None, s))"
  by pat_completeness auto
termination
  by (relation "measure (\<lambda>(s, i). nat (int (length (operations s)) - i))") auto

declare redo_loop.simps [simp del]

definition redo :: "drawing_state \<Rightarrow> (error + operation option) \<times> drawing_state" where
  "redo s =
     (if currentIndex s \<ge> int (length (operations s)) - 1 then (Inr None, s)
      else redo_loop s (currentIndex s + 1))"

definition view :: "operation \<Rightarrow> operation_view" where
  "view op = \<lparr>v_id = op_id op, v_userId = op_userId op, v_username = op_username op,
              v_type = op_type op, v_color = op_color op, v_width = op_width op,
              v_points = op_points op, v_timestamp = op_timestamp op\<rparr>"

definition getActiveOperations :: "drawing_state \<Rightarrow> operation_view list" where
  "getActiveOperations s = map view (filter (\<lambda>op. op_status op = Active) (operations s))"

definition clear :: "drawing_state \<Rightarrow> drawing_state" where
  "clear s = s\<lparr>operations := [], currentIndex := - 1, activeOperations := []\<rparr>"

definition getOperationCount :: "drawing_state \<Rightarrow> nat" where
  "getOperationCount s = length (operations s)"

subsection \<open>Sequences of public calls\<close>

datatype ledger_call =
    Open start_data nat nat
  | Extend string "point list option"
  | Finalize string
  | Undo
  | Redo
  | Clear

fun apply_call :: "drawing_state \<Rightarrow> ledger_call \<Rightarrow> drawing_state" where
  "apply_call s (Open data now_id now_ts) = snd (startOperation s data now_id now_ts)"
| "apply_call s (Extend i ps) = snd (addPoints s i ps)"
| "apply_call s (Finalize i) = endOperation s i"
| "apply_call s Undo = snd (undo s)"
| "apply_call s Redo = snd (redo s)"
| "apply_call s Clear = clear s"

definition run :: "ledger_call list \<Rightarrow> drawing_state" where
  "run cs = foldl apply_call new_DrawingState cs"

section \<open>The session registry (roomManager.js)\<close>

record user =
  u_id :: string
  u_username :: jsval
  u_color :: string
  u_joinedAt :: nat

record room =
  drawingState :: drawing_state
  users :: "(string \<times> user) list"
  colorIndex :: nat

text \<open>Room ids come from the join payload unchecked, so the key of \<open>rooms\<close> is any value.\<close>

record room_manager =
  rooms :: "(jsval \<times> room) list"

definition userColors :: "string list" where
  "userColors = [''#3b82f6'', ''#ef4444'', ''#10b981'', ''#f59e0b'',
                 ''#8b5cf6'', ''#ec4899'', ''#14b8a6'', ''#f97316'']"

definition new_RoomManager :: room_manager where
  "new_RoomManager = \<lparr>rooms = []\<rparr>"

definition new_room :: room where
  "new_room = \<lparr>drawingState = new_DrawingState, users = [], colorIndex = 0\<rparr>"

text \<open>
  \<^verbatim>\<open>getRoom(roomId)\<close> returns the room object and creates it when missing. Room objects
  are mutated through the reference the map holds; the model writes every change back
  under the same key.
\<close>

definition getRoom :: "room_manager \<Rightarrow> jsval \<Rightarrow> room \<times> room_manager" where
  "getRoom m roomId =
     (case map_of (rooms m) roomId of
        None \<Rightarrow> (new_room, m\<lparr>rooms := AList.update roomId new_room (rooms m)\<rparr>)
      | Some r \<Rightarrow> (r, m))"

definition addUser :: "room_manager \<Rightarrow> jsval \<Rightarrow> string \<Rightarrow> jsval \<Rightarrow> nat \<Rightarrow> user \<times> room_manager" where
  "addUser m roomId userId username now =
     (let (room, m1) = getRoom m roomId;
          color = userColors ! (colorIndex room mod length userColors);
          room1 = room\<lparr>colorIndex := colorIndex room + 1\<rparr>;
          user = \<lparr>u_id = userId, u_username = username, u_color = color, u_joinedAt = now\<rparr>;
          room2 = room1\<lparr>users := AList.update userId user (users room1)\<rparr>
      in (user, m1\<lparr>rooms := AList.update roomId room2 (rooms m1)\<rparr>))"

definition removeUser :: "room_manager \<Rightarrow> jsval \<Rightarrow> string \<Rightarrow> room_manager" where
  "removeUser m roomId userId =
     (case map_of (rooms m) roomId of
        None \<Rightarrow> m
      | Some room \<Rightarrow>
          (let room1 = room\<lparr>users := AList.delete userId (users room)\<rparr> in
           if length (users room1) = 0 then m\<lparr>rooms := AList.delete roomId (rooms m)\<rparr>
           else m\<lparr>rooms := AList.update roomId room1 (rooms m)\<rparr>))"

record room_state =
  rs_operations :: "operation_view list"
  rs_users :: "user list"

definition getRoomState :: "room_manager \<Rightarrow> jsval \<Rightarrow> room_state \<times> room_manager" where
  "getRoomState m roomId =
     (let (room, m1) = getRoom m roomId
      in (\<lparr>rs_operations = getActiveOperations (drawingState room),
           rs_users = map snd (users room)\<rparr>, m1))"

text \<open>The payload of a \<^verbatim>\<open>draw-start\<close> event.\<close>

record draw_data =
  dd_x :: jsval
  dd_y :: jsval
  dd_color :: jsval
  dd_width :: jsval
  dd_tool :: jsval

text \<open>
  \<^verbatim>\<open>RoomManager.startOperation(roomId, userId, data)\<close>; the name is suffixed because the
  ledger's method of the same name is modelled above. \<^verbatim>\<open>user.username\<close> raises when the
  user is not in the roster, \<^verbatim>\<open>data.x\<close> raises when the payload is missing (\<open>None\<close>).
\<close>

definition rm_startOperation ::
  "room_manager \<Rightarrow> jsval \<Rightarrow> string \<Rightarrow> draw_data option \<Rightarrow> nat \<Rightarrow> nat
     \<Rightarrow> (error + start_result) \<times> room_manager" where
  "rm_startOperation m roomId userId data now_id now_ts =
     (let (room, m1) = getRoom m roomId in
      case map_of (users room) userId of
        None \<Rightarrow> (Inl TypeError, m1)
      | Some user \<Rightarrow>
          (case data of
             None \<Rightarrow> (Inl TypeError, m1)
           | Some d \<Rightarrow>
               (let (operation, ds) =
                      startOperation (drawingState room)
                        \<lparr>sd_userId = userId, sd_username = u_username user,
                         sd_x = dd_x d, sd_y = dd_y d, sd_color = dd_color d,
                         sd_width = dd_width d, sd_tool = dd_tool d\<rparr> now_id now_ts
                in (Inr operation,
                    m1\<lparr>rooms := AList.update roomId (room\<lparr>drawingState := ds\<rparr>) (rooms m1)\<rparr>))))"

section \<open>The synchronization router (server.js)\<close>

text \<open>The closure variables of one connection; both start as \<^verbatim>\<open>null\<close>.\<close>

record conn =
  currentRoom :: jsval
  currentUser :: "user option"

definition new_conn :: conn where
  "new_conn = \<lparr>currentRoom = JNull, currentUser = None\<rparr>"

record join_data =
  jd_username :: jsval
  jd_room :: jsval

record cursor_data =
  cd_x :: jsval
  cd_y :: jsval

record remote_draw_start =
  rds_userId :: string
  rds_username :: jsval
  rds_color :: jsval
  rds_width :: jsval
  rds_tool :: jsval
  rds_operationId :: string
  rds_x :: jsval
  rds_y :: jsval

record remote_cursor =
  rc_userId :: string
  rc_username :: jsval
  rc_color :: jsval
  rc_x :: jsval
  rc_y :: jsval

datatype event =
    RoomStateEv user "operation_view list" "user list"
  | UserJoined user
  | ErrorEv string
  | OperationStarted string
  | RemoteDrawStart remote_draw_start
  | RemoteCursor remote_cursor

text \<open>
  Where an event goes: \<^verbatim>\<open>socket.emit\<close> reaches the sender only,
  \<^verbatim>\<open>socket.to(room).emit\<close> every other member of the room.
\<close>

datatype emission = ToSender event | ToOthers jsval event

text \<open>
  The \<^verbatim>\<open>join-room\<close> handler. A missing payload (\<open>None\<close>) makes the destructuring
  raise; the \<^verbatim>\<open>catch\<close> answers with an error event. The destructuring default
  \<^verbatim>\<open>room = 'default'\<close> applies to \<^verbatim>\<open>undefined\<close> only.
\<close>

definition on_join_room ::
  "string \<Rightarrow> conn \<Rightarrow> room_manager \<Rightarrow> join_data option \<Rightarrow> nat
     \<Rightarrow> emission list \<times> conn \<times> room_manager" where
  "on_join_room socket_id c m data now =
     (case data of
        None \<Rightarrow> ([ToSender (ErrorEv ''Failed to join room'')], c, m)
      | Some d \<Rightarrow>
          (let username = jd_username d;
               room = (if jd_room d = JUndefined then JStr ''default'' else jd_room d);
               m1 = (if truthy (currentRoom c) then removeUser m (currentRoom c) socket_id else m);
               (u, m2) = addUser m1 room socket_id
                           (if truthy username then username
                            else JStr (''User'' @ take 4 socket_id)) now;
               (roomState, m3) = getRoomState m2 room
           in ([ToSender (RoomStateEv u (rs_operations roomState) (rs_users roomState)),
                ToOthers room (UserJoined u)],
               \<lparr>currentRoom = room, currentUser = Some u\<rparr>, m3)))"

text \<open>
  The \<^verbatim>\<open>draw-start\<close> handler. An exception inside the \<^verbatim>\<open>try\<close> is logged and
  swallowed; what was emitted and changed before it stays.
\<close>

definition on_draw_start ::
  "string \<Rightarrow> conn \<Rightarrow> room_manager \<Rightarrow> draw_data option \<Rightarrow> nat \<Rightarrow> nat
     \<Rightarrow> emission list \<times> room_manager" where
  "on_draw_start socket_id c m data now_id now_ts =
     (if \<not> truthy (currentRoom c) then ([], m)
      else
        (case rm_startOperation m (currentRoom c) socket_id data now_id now_ts of
           (Inl e, m1) \<Rightarrow> ([], m1)
         | (Inr operation, m1) \<Rightarrow>
             (case (currentUser c, data) of
                (Some u, Some d) \<Rightarrow>
                  ([ToSender (OperationStarted (sr_operationId operation)),
                    ToOthers (currentRoom c)
                      (RemoteDrawStart
                         \<lparr>rds_userId = socket_id, rds_username = u_username u,
                          rds_color = dd_color d, rds_width = dd_width d, rds_tool = dd_tool d,
                          rds_operationId = sr_operationId operation,
                          rds_x = dd_x d, rds_y = dd_y d\<rparr>)], m1)
              | _ \<Rightarrow> ([ToSender (OperationStarted (sr_operationId operation))], m1))))"

text \<open>The \<^verbatim>\<open>cursor-move\<close> handler; it touches no state.\<close>

definition on_cursor_move :: "string \<Rightarrow> conn \<Rightarrow> cursor_data option \<Rightarrow> emission list" where
  "on_cursor_move socket_id c data =
     (if \<not> truthy (currentRoom c) then []
      else
        (case currentUser c of
           None \<Rightarrow> []
         | Some u \<Rightarrow>
             (case data of
                None \<Rightarrow> []
              | Some d \<Rightarrow>
                  [ToOthers (currentRoom c)
                     (RemoteCursor
                        \<lparr>rc_userId = socket_id, rc_username = u_username u,
                         rc_color = JStr (u_color u), rc_x = cd_x d, rc_y = cd_y d\<rparr>)])))"

section \<open>The join form of the client (ui.js, joinRoom)\<close>

text \<open>
  Strings of the form are sequences of code units below 256. \<^verbatim>\<open>trim()\<close> strips white
  space and line terminators from both ends.
\<close>

definition js_space :: "char \<Rightarrow> bool" where
  "js_space ch = (of_char ch \<in> {9, 10, 11, 12, 13, 32, 160 :: nat})"

definition js_trim :: "string \<Rightarrow> string" where
  "js_trim s = rev (dropWhile js_space (rev (dropWhile js_space s)))"

text \<open>The complement of the class \<^verbatim>\<open>[^a-zA-Z0-9-_]\<close>: the characters the room id keeps.\<close>

definition room_char :: "char \<Rightarrow> bool" where
  "room_char ch =
     (let n = (of_char ch :: nat) in
      (97 \<le> n \<and> n \<le> 122) \<or> (65 \<le> n \<and> n \<le> 90) \<or> (48 \<le> n \<and> n \<le> 57) \<or> n = 45 \<or> n = 95)"

text \<open>
  \<^verbatim>\<open>handleJoin\<close> followed by \<^verbatim>\<open>WebSocketManager.joinRoom\<close>: the payload the form emits
  for the two input values, or nothing when the name is empty (the form alerts and
  returns).
\<close>

definition handleJoin :: "string \<Rightarrow> string \<Rightarrow> join_data option" where
  "handleJoin usernameInput roomInput =
     (let username = js_trim usernameInput;
          room = (if js_trim roomInput = [] then ''default'' else js_trim roomInput)
      in if username = [] then None
         else
           (let sanitizedUsername = take 20 username;
                sanitizedRoom = filter room_char (take 30 room)
            in Some \<lparr>jd_username = JStr sanitizedUsername, jd_room = JStr sanitizedRoom\<rparr>))"

section \<open>Notions used to state the properties\<close>

text \<open>
  A ledger state is consistent when the cursor lies between \<open>-1\<close> and the last index
  and the status of every entry is decided by its side of the cursor.
\<close>

definition ledger_inv :: "drawing_state \<Rightarrow> bool" where
  "ledger_inv s =
     (- 1 \<le> currentIndex s \<and> currentIndex s < int (length (operations s)) \<and>
      (\<forall>k < length (operations s).
         op_status (operations s ! k) = (if int k \<le> currentIndex s then Active else Undone)))"

text \<open>How an operation opened with the given arguments appears in the render list.\<close>

definition opened_view :: "start_data \<Rightarrow> nat \<Rightarrow> nat \<Rightarrow> operation_view" where
  "opened_view data now_id now_ts =
     \<lparr>v_id = operationId_of (sd_userId data) now_id, v_userId = sd_userId data,
      v_username = sd_username data, v_type = sd_tool data, v_color = sd_color data,
      v_width = sd_width data, v_points = [\<lparr>pt_x = sd_x data, pt_y = sd_y data\<rparr>],
      v_timestamp = now_ts\<rparr>"

text \<open>The operations a call sequence opens, keyed by id, and the ids it finalizes, in order.\<close>

fun opened :: "ledger_call list \<Rightarrow> (string \<times> operation_view) list" where
  "opened [] = []"
| "opened (Open data now_id now_ts # cs) =
     (operationId_of (sd_userId data) now_id, opened_view data now_id now_ts) # opened cs"
| "opened (c # cs) = opened cs"

fun finalized :: "ledger_call list \<Rightarrow> string list" where
  "finalized [] = []"
| "finalized (Finalize i # cs) = i # finalized cs"
| "finalized (c # cs) = finalized cs"

text \<open>
  A sequence of Open and Finalize calls in which every Finalize names an operation that
  is open at that moment and every opened operation is finalized; \<open>P\<close> lists the ids
  open at the start.
\<close>

fun open_finalize_seq :: "string list \<Rightarrow> ledger_call list \<Rightarrow> bool" where
  "open_finalize_seq P [] = (P = [])"
| "open_finalize_seq P (Open data now_id now_ts # cs) =
     open_finalize_seq (operationId_of (sd_userId data) now_id # P) cs"
| "open_finalize_seq P (Finalize i # cs) = (i \<in> set P \<and> open_finalize_seq (removeAll i P) cs)"
| "open_finalize_seq P (c # cs) = False"

text \<open>
  A connection counts as joined when its room variable is truthy and its user variable
  holds the roster entry that the registry keeps for the connection in that room (the
  join handler stores the very object it put into the roster).
\<close>

definition joined :: "string \<Rightarrow> conn \<Rightarrow> room_manager \<Rightarrow> bool" where
  "joined socket_id c m =
     (truthy (currentRoom c) \<and>
      (case currentUser c of
         None \<Rightarrow> False
       | Some u \<Rightarrow>
           (case map_of (rooms m) (currentRoom c) of
              None \<Rightarrow> False
            | Some r \<Rightarrow> map_of (users r) socket_id = Some u)))"

subsection \<open>Sample inputs\<close>

definition sample_stroke :: "string \<Rightarrow> start_data" where
  "sample_stroke uid =
     \<lparr>sd_userId = uid, sd_username = JStr ''ann'', sd_x = JNum 0, sd_y = JNum 0,
      sd_color = JStr ''#112233'', sd_width = JNum 3, sd_tool = JStr ''freehand''\<rparr>"

definition sample_draw :: draw_data where
  "sample_draw = \<lparr>dd_x = JNum 4, dd_y = JNum 5, dd_color = JStr ''#112233'',
                   dd_width = JNum 3, dd_tool = JStr ''line''\<rparr>"

definition sample_cursor :: cursor_data where
  "sample_cursor = \<lparr>cd_x = JNum 8, cd_y = JNum 9\<rparr>"

definition sample_join :: join_data where
  "sample_join = \<lparr>jd_username = JStr ''ann'', jd_room = JStr ''studio''\<rparr>"

section \<open>The cursor and status invariant\<close>

lemma inv_new: "ledger_inv new_DrawingState"
  by (simp add: ledger_inv_def new_DrawingState_def)

lemma inv_start: "ledger_inv s \<Longrightarrow> ledger_inv (snd (startOperation s d a b))"
  by (simp add: ledger_inv_def startOperation_def Let_def)

lemma find_index_op_less: "find_index_op i xs = Some k \<Longrightarrow> k < length xs"
  by (induction xs arbitrary: k) (auto split: if_splits option.splits)

lemma inv_addPoints: "ledger_inv s \<Longrightarrow> ledger_inv (snd (addPoints s i ps))"
  by (auto simp: ledger_inv_def addPoints_def Let_def nth_list_update
           split: option.splits dest: find_index_op_less)

lemma inv_end: "ledger_inv s \<Longrightarrow> ledger_inv (endOperation s i)"
  by (auto simp: ledger_inv_def endOperation_def js_slice0_def nth_append
           split: option.splits)

text \<open>Under the invariant the loop of \<open>undo\<close> acts on its first iteration.\<close>

lemma undo_inv_step:
  assumes "ledger_inv s" "0 \<le> currentIndex s"
  shows "undo s = (Inr (Some ((operations s ! nat (currentIndex s))\<lparr>op_status := Undone\<rparr>)),
                   s\<lparr>operations := (operations s)[nat (currentIndex s) :=
                         (operations s ! nat (currentIndex s))\<lparr>op_status := Undone\<rparr>],
                     currentIndex := currentIndex s - 1\<rparr>)"
proof -
  have "nat (currentIndex s) < length (operations s)"
    using assms unfolding ledger_inv_def by linarith
  moreover have "op_status (operations s ! nat (currentIndex s)) = Active"
    using assms calculation by (simp add: ledger_inv_def)
  ultimately show ?thesis
    using assms by (simp add: undo_def undo_loop.simps [of s] Let_def ledger_inv_def)
qed

lemma inv_undo: "ledger_inv s \<Longrightarrow> ledger_inv (snd (undo s))"
proof (cases "0 \<le> currentIndex s")
  case True
  assume "ledger_inv s"
  then show ?thesis
    using True by (auto simp: undo_inv_step ledger_inv_def nth_list_update)
next
  case False
  assume "ledger_inv s"
  then show ?thesis using False by (simp add: undo_def)
qed

text \<open>Likewise \<open>redo\<close> acts on the entry right after the cursor.\<close>

lemma redo_inv_step:
  assumes "ledger_inv s" "currentIndex s < int (length (operations s)) - 1"
  shows "redo s = (Inr (Some ((operations s ! nat (currentIndex s + 1))\<lparr>op_status := Active\<rparr>)),
                   s\<lparr>operations := (operations s)[nat (currentIndex s + 1) :=
                         (operations s ! nat (currentIndex s + 1))\<lparr>op_status := Active\<rparr>],
                     currentIndex := currentIndex s + 1\<rparr>)"
proof -
  have "nat (currentIndex s + 1) < length (operations s)" "0 \<le> currentIndex s + 1"
    using assms unfolding ledger_inv_def by linarith+
  moreover have "op_status (operations s ! nat (currentIndex s + 1)) = Undone"
    using assms calculation by (simp add: ledger_inv_def)
  ultimately show ?thesis
    using assms by (simp add: redo_def redo_loop.simps [of s] Let_def)
qed

lemma inv_redo: "ledger_inv s \<Longrightarrow> ledger_inv (snd (redo s))"
proof (cases "currentIndex s < int (length (operations s)) - 1")
  case True
  assume "ledger_inv s"
  then show ?thesis
    using True by (auto simp: redo_inv_step ledger_inv_def nth_list_update)
next
  case False
  assume "ledger_inv s"
  then show ?thesis using False by (simp add: redo_def)
qed

lemma inv_clear: "ledger_inv (clear s)"
  by (simp add: ledger_inv_def clear_def)

lemma inv_apply_call: "ledger_inv s \<Longrightarrow> ledger_inv (apply_call s c)"
  by (cases c) (simp_all add: inv_start inv_addPoints inv_end inv_undo inv_redo inv_clear)

lemma inv_foldl: "ledger_inv s \<Longrightarrow> ledger_inv (foldl apply_call s cs)"
  by (induction cs arbitrary: s) (simp_all add: inv_apply_call)

lemma inv_run: "ledger_inv (run cs)"
  by (simp add: run_def inv_foldl inv_new)

text \<open>
  C1. In every state reached from the empty ledger by a sequence of Open, Extend,
  Finalize, Undo, Redo and Clear calls, the cursor is at least \<open>-1\<close> and below the
  length of the history, every entry at an index up to the cursor is active, every
  entry beyond the cursor is undone, and with the cursor at \<open>-1\<close> no entry is active.
\<close>

theorem cursor_status_invariant:
  "- 1 \<le> currentIndex (run cs) \<and> currentIndex (run cs) < int (length (operations (run cs))) \<and>
   (\<forall>k < length (operations (run cs)).
      (int k \<le> currentIndex (run cs) \<longrightarrow> op_status (operations (run cs) ! k) = Active) \<and>
      (currentIndex (run cs) < int k \<longrightarrow> op_status (operations (run cs) ! k) = Undone)) \<and>
   (currentIndex (run cs) = - 1 \<longrightarrow>
      filter (\<lambda>op. op_status op = Active) (operations (run cs)) = [])"
proof -
  have inv: "ledger_inv (run cs)" by (rule inv_run)
  have "\<forall>k < length (operations (run cs)).
          (int k \<le> currentIndex (run cs) \<longrightarrow> op_status (operations (run cs) ! k) = Active) \<and>
          (currentIndex (run cs) < int k \<longrightarrow> op_status (operations (run cs) ! k) = Undone)"
    using inv by (simp add: ledger_inv_def)
  moreover have "filter (\<lambda>op. op_status op = Active) (operations (run cs)) = []"
    if "currentIndex (run cs) = - 1"
  proof -
    have "\<forall>k < length (operations (run cs)). op_status (operations (run cs) ! k) = Undone"
      using inv that by (simp add: ledger_inv_def)
    then have "\<forall>x \<in> set (operations (run cs)). op_status x \<noteq> Active"
      by (metis in_set_conv_nth status.distinct(5))
    then show ?thesis by (simp add: filter_empty_conv)
  qed
  ultimately show ?thesis
    using inv by (simp add: ledger_inv_def)
qed

theorem cursor_status_invariant_witness:
  "currentIndex (run [Open (sample_stroke ''a'') 1 1, Finalize ''op-a-1'',
                      Open (sample_stroke ''a'') 2 2, Finalize ''op-a-2'', Undo]) = 0 \<and>
   op_status (operations (run [Open (sample_stroke ''a'') 1 1, Finalize ''op-a-1'',
                      Open (sample_stroke ''a'') 2 2, Finalize ''op-a-2'', Undo]) ! 0) = Active \<and>
   op_status (operations (run [Open (sample_stroke ''a'') 1 1, Finalize ''op-a-1'',
                      Open (sample_stroke ''a'') 2 2, Finalize ''op-a-2'', Undo]) ! 1) = Undone"
proof -
  let ?cs = "[Open (sample_stroke ''a'') 1 1, Finalize ''op-a-1'',
              Open (sample_stroke ''a'') 2 2, Finalize ''op-a-2'', Undo]"
  have c: "currentIndex (run ?cs) = 0" by code_simp
  have a: "op_status (operations (run ?cs) ! k) = Active"
    if "k < length (operations (run ?cs))" "int k \<le> currentIndex (run ?cs)" for k
    using cursor_status_invariant [of ?cs] that by blast
  have b: "op_status (operations (run ?cs) ! k) = Undone"
    if "k < length (operations (run ?cs))" "currentIndex (run ?cs) < int k" for k
    using cursor_status_invariant [of ?cs] that by blast
  have "op_status (operations (run ?cs) ! 0) = Active"
    by (rule a) code_simp+
  moreover have "op_status (operations (run ?cs) ! 1) = Undone"
    by (rule b) code_simp+
  ultimately show ?thesis using c by blast
qed

section \<open>Undo followed by Redo\<close>

lemma undo_Some_nonneg: "undo s = (Inr (Some u), s1) \<Longrightarrow> 0 \<le> currentIndex s"
  by (cases "currentIndex s < 0") (simp_all add: undo_def)

lemma set_status_same: "op_status x = v \<Longrightarrow> x\<lparr>op_status := v\<rparr> = x"
  by (cases x) simp

lemma undo_redo_inv:
  assumes inv: "ledger_inv s" and u: "undo s = (Inr (Some u), s1)"
  shows "redo s1 = (Inr (Some (operations s ! nat (currentIndex s))), s)"
    and "u\<lparr>op_status := Active\<rparr> = operations s ! nat (currentIndex s)"
    and "u = (operations s ! nat (currentIndex s))\<lparr>op_status := Undone\<rparr>"
proof -
  let ?n = "nat (currentIndex s)"
  have nn: "0 \<le> currentIndex s" using u by (rule undo_Some_nonneg)
  have lt: "?n < length (operations s)"
    using inv nn unfolding ledger_inv_def by linarith
  have act: "op_status (operations s ! ?n) = Active"
    using inv nn lt by (simp add: ledger_inv_def)
  have step: "undo s = (Inr (Some ((operations s ! ?n)\<lparr>op_status := Undone\<rparr>)),
                   s\<lparr>operations := (operations s)[?n := (operations s ! ?n)\<lparr>op_status := Undone\<rparr>],
                     currentIndex := currentIndex s - 1\<rparr>)"
    using inv nn by (rule undo_inv_step)
  from step u show ueq: "u = (operations s ! ?n)\<lparr>op_status := Undone\<rparr>" by simp
  from step u have s1: "s1 = s\<lparr>operations := (operations s)[?n := u],
                     currentIndex := currentIndex s - 1\<rparr>" by simp
  show restored: "u\<lparr>op_status := Active\<rparr> = operations s ! ?n"
    using act by (simp add: ueq set_status_same)
  have inv1: "ledger_inv s1" using inv_undo [OF inv] u by simp
  have c1: "currentIndex s1 < int (length (operations s1)) - 1"
    using lt nn by (simp add: s1)
  have "redo s1 = (Inr (Some ((operations s1 ! nat (currentIndex s1 + 1))\<lparr>op_status := Active\<rparr>)),
                   s1\<lparr>operations := (operations s1)[nat (currentIndex s1 + 1) :=
                         (operations s1 ! nat (currentIndex s1 + 1))\<lparr>op_status := Active\<rparr>],
                     currentIndex := currentIndex s1 + 1\<rparr>)"
    using inv1 c1 by (rule redo_inv_step)
  moreover have "operations s1 ! nat (currentIndex s1 + 1) = u"
    using lt by (simp add: s1)
  moreover have "s1\<lparr>operations := (operations s1)[nat (currentIndex s1 + 1) := operations s ! ?n],
                     currentIndex := currentIndex s1 + 1\<rparr> = s"
    by (simp add: s1)
  ultimately show "redo s1 = (Inr (Some (operations s ! ?n)), s)"
    by (simp add: restored)
qed

text \<open>
  C5. In every state reached from the empty ledger in which Undo returns an operation,
  a Redo right after it returns that operation with its status set back to active and
  nothing else changed (it is the entry the cursor pointed at before the Undo), and the
  whole ledger state, cursor included, is again what it was before the Undo.
\<close>

theorem undo_redo_round_trip:
  assumes "undo (run cs) = (Inr (Some u), s1)"
  shows "redo s1 = (Inr (Some (u\<lparr>op_status := Active\<rparr>)), run cs) \<and>
         u\<lparr>op_status := Active\<rparr> = operations (run cs) ! nat (currentIndex (run cs)) \<and>
         op_id u = op_id (operations (run cs) ! nat (currentIndex (run cs))) \<and>
         currentIndex (snd (redo s1)) = currentIndex (run cs)"
proof -
  have inv: "ledger_inv (run cs)" by (rule inv_run)
  note r = undo_redo_inv [OF inv assms]
  have "op_id u = op_id (operations (run cs) ! nat (currentIndex (run cs)))"
    by (simp add: r(3))
  then show ?thesis using r(1) r(2) by simp
qed

theorem undo_redo_round_trip_witness:
  "redo (snd (undo (run [Open (sample_stroke ''a'') 1 1, Finalize ''op-a-1''])))
     = (Inr (Some \<lparr>op_id = ''op-a-1'', op_userId = ''a'', op_username = JStr ''ann'',
                    op_type = JStr ''freehand'', op_color = JStr ''#112233'',
                    op_width = JNum 3, op_points = [\<lparr>pt_x = JNum 0, pt_y = JNum 0\<rparr>],
                    op_timestamp = 1, op_status = Active\<rparr>),
        run [Open (sample_stroke ''a'') 1 1, Finalize ''op-a-1''])"
proof -
  let ?cs = "[Open (sample_stroke ''a'') 1 1, Finalize ''op-a-1'']"
  have h: "undo (run ?cs) =
             (Inr (Some \<lparr>op_id = ''op-a-1'', op_userId = ''a'', op_username = JStr ''ann'',
                    op_type = JStr ''freehand'', op_color = JStr ''#112233'',
                    op_width = JNum 3, op_points = [\<lparr>pt_x = JNum 0, pt_y = JNum 0\<rparr>],
                    op_timestamp = 1, op_status = Undone\<rparr>), snd (undo (run ?cs)))"
    by code_simp
  from undo_redo_round_trip [OF h] show ?thesis by simp
qed

section \<open>A new operation after Undo abandons the redo tail\<close>

lemma redo_at_end: "currentIndex s = int (length (operations s)) - 1 \<Longrightarrow> redo s = (Inr None, s)"
  by (simp add: redo_def)

lemma open_finalize_inv:
  assumes inv: "ledger_inv s" and st: "startOperation s d a b = (r, s2)"
  shows "operations (endOperation s2 (sr_operationId r)) =
           take (nat (currentIndex s + 1)) (operations s) @
             [\<lparr>op_id = operationId_of (sd_userId d) a, op_userId = sd_userId d,
               op_username = sd_username d, op_type = sd_tool d,
               op_color = sd_color d, op_width = sd_width d,
               op_points = [\<lparr>pt_x = sd_x d, pt_y = sd_y d\<rparr>],
               op_timestamp = b, op_status = Active\<rparr>]"
    and "currentIndex (endOperation s2 (sr_operationId r)) = currentIndex s + 1"
    and "length (operations (endOperation s2 (sr_operationId r))) = nat (currentIndex s + 2)"
proof -
  have r: "sr_operationId r = operationId_of (sd_userId d) a"
    using st by (auto simp: startOperation_def Let_def)
  have s2: "operations s2 = operations s" "currentIndex s2 = currentIndex s"
    "map_of (activeOperations s2) (operationId_of (sd_userId d) a) =
       Some \<lparr>op_id = operationId_of (sd_userId d) a, op_userId = sd_userId d,
               op_username = sd_username d, op_type = sd_tool d,
               op_color = sd_color d, op_width = sd_width d,
               op_points = [\<lparr>pt_x = sd_x d, pt_y = sd_y d\<rparr>],
               op_timestamp = b, op_status = InProgress\<rparr>"
    using st by (auto simp: startOperation_def Let_def update_conv')
  have b: "- 1 \<le> currentIndex s" "currentIndex s < int (length (operations s))"
    using inv by (simp_all add: ledger_inv_def)
  show "operations (endOperation s2 (sr_operationId r)) =
           take (nat (currentIndex s + 1)) (operations s) @
             [\<lparr>op_id = operationId_of (sd_userId d) a, op_userId = sd_userId d,
               op_username = sd_username d, op_type = sd_tool d,
               op_color = sd_color d, op_width = sd_width d,
               op_points = [\<lparr>pt_x = sd_x d, pt_y = sd_y d\<rparr>],
               op_timestamp = b, op_status = Active\<rparr>]"
    using b by (simp add: endOperation_def r s2 js_slice0_def)
  show "currentIndex (endOperation s2 (sr_operationId r)) = currentIndex s + 1"
    by (simp add: endOperation_def r s2)
  show "length (operations (endOperation s2 (sr_operationId r))) = nat (currentIndex s + 2)"
    using b by (simp add: endOperation_def r s2 js_slice0_def)
qed

text \<open>
  C4. From every state reached from the empty ledger, after an Undo that returned an
  operation, opening a new operation and finalizing it leaves a history that consists
  of the entries up to the cursor followed by the new operation alone: every entry
  that lay beyond the cursor, the just undone one included, is gone, no undone entry
  remains, and a Redo called next returns nothing and changes nothing.
\<close>

theorem finalize_after_undo_discards_redo_tail:
  assumes "undo (run cs) = (Inr (Some u), s1)"
    and "startOperation s1 d a b = (r, s2)"
  shows "operations (endOperation s2 (sr_operationId r)) =
           take (nat (currentIndex s1 + 1)) (operations s1) @
             [\<lparr>op_id = operationId_of (sd_userId d) a, op_userId = sd_userId d,
               op_username = sd_username d, op_type = sd_tool d,
               op_color = sd_color d, op_width = sd_width d,
               op_points = [\<lparr>pt_x = sd_x d, pt_y = sd_y d\<rparr>],
               op_timestamp = b, op_status = Active\<rparr>] \<and>
         filter (\<lambda>x. op_status x = Undone) (operations (endOperation s2 (sr_operationId r))) = [] \<and>
         redo (endOperation s2 (sr_operationId r)) = (Inr None, endOperation s2 (sr_operationId r))"
proof -
  let ?s3 = "endOperation s2 (sr_operationId r)"
  have "ledger_inv (snd (undo (run cs)))" by (rule inv_undo) (rule inv_run)
  then have inv1: "ledger_inv s1" using assms(1) by simp
  note f = open_finalize_inv [OF inv1 assms(2)]
  have "ledger_inv (snd (startOperation s1 d a b))" using inv1 by (rule inv_start)
  then have "ledger_inv s2" using assms(2) by simp
  then have inv3: "ledger_inv ?s3" by (rule inv_end)
  have "- 1 \<le> currentIndex s1" using inv1 by (simp add: ledger_inv_def)
  then have top: "currentIndex ?s3 = int (length (operations ?s3)) - 1"
    using f(2) f(3) by simp
  have "\<forall>k < length (operations ?s3). op_status (operations ?s3 ! k) = Active"
    using inv3 top by (simp add: ledger_inv_def)
  then have "\<forall>x \<in> set (operations ?s3). op_status x \<noteq> Undone"
    by (metis in_set_conv_nth status.distinct(5))
  then have "filter (\<lambda>x. op_status x = Undone) (operations ?s3) = []"
    by (simp add: filter_empty_conv)
  moreover have "redo ?s3 = (Inr None, ?s3)" using top by (rule redo_at_end)
  ultimately show ?thesis using f(1) by simp
qed

theorem finalize_after_undo_discards_redo_tail_witness:
  "map op_id (operations (endOperation
      (snd (startOperation
              (snd (undo (run [Open (sample_stroke ''a'') 1 1, Finalize ''op-a-1'',
                               Open (sample_stroke ''a'') 2 2, Finalize ''op-a-2''])))
              (sample_stroke ''b'') 3 3))
      ''op-b-3'')) = [''op-a-1'', ''op-b-3''] \<and>
   fst (redo (endOperation
      (snd (startOperation
              (snd (undo (run [Open (sample_stroke ''a'') 1 1, Finalize ''op-a-1'',
                               Open (sample_stroke ''a'') 2 2, Finalize ''op-a-2''])))
              (sample_stroke ''b'') 3 3))
      ''op-b-3'')) = Inr None"
proof -
  let ?cs = "[Open (sample_stroke ''a'') 1 1, Finalize ''op-a-1'',
              Open (sample_stroke ''a'') 2 2, Finalize ''op-a-2'']"
  let ?s1 = "snd (undo (run ?cs))"
  let ?r = "fst (startOperation ?s1 (sample_stroke ''b'') 3 3)"
  let ?s2 = "snd (startOperation ?s1 (sample_stroke ''b'') 3 3)"
  have h1: "undo (run ?cs) =
             (Inr (Some \<lparr>op_id = ''op-a-2'', op_userId = ''a'', op_username = JStr ''ann'',
                    op_type = JStr ''freehand'', op_color = JStr ''#112233'',
                    op_width = JNum 3, op_points = [\<lparr>pt_x = JNum 0, pt_y = JNum 0\<rparr>],
                    op_timestamp = 2, op_status = Undone\<rparr>), ?s1)"
    by code_simp
  have h2: "startOperation ?s1 (sample_stroke ''b'') 3 3 = (?r, ?s2)" by simp
  have i: "sr_operationId ?r = ''op-b-3''" by code_simp
  have t: "take (nat (currentIndex ?s1 + 1)) (operations ?s1) @
             [\<lparr>op_id = operationId_of (sd_userId (sample_stroke ''b'')) 3,
               op_userId = sd_userId (sample_stroke ''b''),
               op_username = sd_username (sample_stroke ''b''),
               op_type = sd_tool (sample_stroke ''b''),
               op_color = sd_color (sample_stroke ''b''),
               op_width = sd_width (sample_stroke ''b''),
               op_points = [\<lparr>pt_x = sd_x (sample_stroke ''b''), pt_y = sd_y (sample_stroke ''b'')\<rparr>],
               op_timestamp = 3, op_status = Active\<rparr>] =
           [\<lparr>op_id = ''op-a-1'', op_userId = ''a'', op_username = JStr ''ann'',
                    op_type = JStr ''freehand'', op_color = JStr ''#112233'',
                    op_width = JNum 3, op_points = [\<lparr>pt_x = JNum 0, pt_y = JNum 0\<rparr>],
                    op_timestamp = 1, op_status = Active\<rparr>,
            \<lparr>op_id = ''op-b-3'', op_userId = ''b'', op_username = JStr ''ann'',
                    op_type = JStr ''freehand'', op_color = JStr ''#112233'',
                    op_width = JNum 3, op_points = [\<lparr>pt_x = JNum 0, pt_y = JNum 0\<rparr>],
                    op_timestamp = 3, op_status = Active\<rparr>]"
    by code_simp
  from finalize_after_undo_discards_redo_tail [OF h1 h2] show ?thesis
    unfolding i t by simp
qed

section \<open>Extending an operation that is not there\<close>

text \<open>
  C7. In any ledger state, when the id is not pending and the history either holds no
  entry with that id or the entry found for it is not active, Extend returns normally
  (whatever was passed as points, even something that cannot be spread) and leaves
  the whole state, and so the length of the history, unchanged.
\<close>

theorem extend_unknown_is_no_op:
  assumes "map_of (activeOperations s) i = None"
    and "case find_op i (operations s) of None \<Rightarrow> True | Some x \<Rightarrow> op_status x \<noteq> Active"
  shows "addPoints s i ps = (Inr (), s) \<and>
         getOperationCount (snd (addPoints s i ps)) = getOperationCount s"
  using assms by (auto simp: addPoints_def find_op_def Let_def split: option.splits)

theorem extend_unknown_is_no_op_witness:
  "addPoints (run [Open (sample_stroke ''a'') 1 1, Finalize ''op-a-1'', Undo]) ''op-a-1''
     (Some [\<lparr>pt_x = JNum 1, pt_y = JNum 1\<rparr>])
     = (Inr (), run [Open (sample_stroke ''a'') 1 1, Finalize ''op-a-1'', Undo]) \<and>
   addPoints (run [Open (sample_stroke ''a'') 1 1, Finalize ''op-a-1'', Undo]) ''op-zz-9'' None
     = (Inr (), run [Open (sample_stroke ''a'') 1 1, Finalize ''op-a-1'', Undo])"
proof -
  let ?s = "run [Open (sample_stroke ''a'') 1 1, Finalize ''op-a-1'', Undo]"
  have p1: "map_of (activeOperations ?s) ''op-a-1'' = None" by code_simp
  have f1: "case find_op ''op-a-1'' (operations ?s) of None \<Rightarrow> True
            | Some x \<Rightarrow> op_status x \<noteq> Active" by code_simp
  have p2: "map_of (activeOperations ?s) ''op-zz-9'' = None" by code_simp
  have f2: "case find_op ''op-zz-9'' (operations ?s) of None \<Rightarrow> True
            | Some x \<Rightarrow> op_status x \<noteq> Active" by code_simp
  from extend_unknown_is_no_op [OF p1 f1] extend_unknown_is_no_op [OF p2 f2]
  show ?thesis by blast
qed

section \<open>Open and Finalize sequences\<close>

lemma finalized_subset:
  "open_finalize_seq P cs \<Longrightarrow> set (finalized cs) \<subseteq> set P \<union> fst ` set (opened cs)"
proof (induction P cs rule: open_finalize_seq.induct)
  case (3 P i cs)
  then show ?case by auto
qed auto

lemma finalized_exact:
  "open_finalize_seq P cs \<Longrightarrow> distinct (P @ map fst (opened cs)) \<Longrightarrow>
   distinct (finalized cs) \<and> set (finalized cs) = set P \<union> fst ` set (opened cs)"
proof (induction P cs rule: open_finalize_seq.induct)
  case (1 P)
  then show ?case by simp
next
  case (2 P d a b cs)
  then show ?case by auto
next
  case (3 P i cs)
  have d: "distinct (removeAll i P @ map fst (opened cs))"
    using 3(3) by (auto simp: distinct_removeAll)
  have ih: "distinct (finalized cs) \<and> set (finalized cs) = set (removeAll i P) \<union> fst ` set (opened cs)"
    using 3 d by simp
  have "i \<notin> fst ` set (opened cs)" using 3(2,3) by auto
  then have "i \<notin> set (finalized cs)" using ih by simp
  then show ?case using ih 3(2) by auto
qed auto

lemma view_status: "view (x\<lparr>op_status := v\<rparr>) = view x"
  by (simp add: view_def)

lemma active_after_finalize:
  assumes "map_of (activeOperations s) i = Some x"
    and "currentIndex s = int (length (operations s)) - 1"
  shows "getActiveOperations (endOperation s i) = getActiveOperations s @ [view x]"
    and "currentIndex (endOperation s i) = int (length (operations (endOperation s i))) - 1"
    and "activeOperations (endOperation s i) = AList.delete i (activeOperations s)"
  using assms
  by (simp_all add: endOperation_def getActiveOperations_def js_slice0_def view_status)

lemma map_of_swap_front:
  "k \<notin> fst ` set pv \<Longrightarrow> map_of (pv @ (k, v) # r) = map_of ((k, v) # pv @ r)"
  by (induction pv) (auto simp: fun_eq_iff)

lemma open_finalize_general:
  assumes "open_finalize_seq (map fst pv) cs"
    and "distinct (map fst pv @ map fst (opened cs))"
    and "currentIndex s = int (length (operations s)) - 1"
    and "\<forall>(i, v) \<in> set pv. \<exists>x. map_of (activeOperations s) i = Some x \<and> view x = v"
  shows "getActiveOperations (foldl apply_call s cs) =
           getActiveOperations s @ map (\<lambda>i. the (map_of (pv @ opened cs) i)) (finalized cs)"
  using assms
proof (induction cs arbitrary: s pv)
  case Nil
  then show ?case by simp
next
  case (Cons c cs)
  show ?case
  proof (cases c)
    case (Open d a b)
    let ?k = "operationId_of (sd_userId d) a"
    let ?v = "opened_view d a b"
    let ?s' = "snd (startOperation s d a b)"
    let ?pv' = "(?k, ?v) # pv"
    have k_new: "?k \<notin> fst ` set pv" using Cons.prems(2) Open by auto
    have 1: "open_finalize_seq (map fst ?pv') cs" using Cons.prems(1) Open by simp
    have 2: "distinct (map fst ?pv' @ map fst (opened cs))"
      using Cons.prems(2) Open by auto
    have 3: "currentIndex ?s' = int (length (operations ?s')) - 1"
      using Cons.prems(3) by (simp add: startOperation_def Let_def)
    have 4: "\<forall>(i, v) \<in> set ?pv'. \<exists>x. map_of (activeOperations ?s') i = Some x \<and> view x = v"
    proof (clarify)
      fix j w assume jw: "(j, w) \<in> set ?pv'"
      show "\<exists>x. map_of (activeOperations ?s') j = Some x \<and> view x = w"
      proof (cases "(j, w) = (?k, ?v)")
        case True
        then show ?thesis
          by (simp add: startOperation_def Let_def update_conv' view_def opened_view_def)
      next
        case False
        then have old: "(j, w) \<in> set pv" using jw by auto
        then have "j \<noteq> ?k" using k_new by force
        moreover obtain x where "map_of (activeOperations s) j = Some x" "view x = w"
          using Cons.prems(4) old by auto
        ultimately show ?thesis
          by (simp add: startOperation_def Let_def update_conv')
      qed
    qed
    have ih: "getActiveOperations (foldl apply_call ?s' cs) =
           getActiveOperations ?s' @ map (\<lambda>i. the (map_of (?pv' @ opened cs) i)) (finalized cs)"
      using Cons.IH [OF 1 2 3 4] .
    have same: "getActiveOperations ?s' = getActiveOperations s"
      by (simp add: startOperation_def Let_def getActiveOperations_def)
    have "map_of (pv @ opened (c # cs)) = map_of (?pv' @ opened cs)"
      using map_of_swap_front [OF k_new] Open by simp
    then show ?thesis using ih same Open by simp
  next
    case (Finalize i)
    have iP: "i \<in> fst ` set pv" and rest: "open_finalize_seq (removeAll i (map fst pv)) cs"
      using Cons.prems(1) Finalize by auto
    from iP obtain v where iv: "(i, v) \<in> set pv" by auto
    then obtain x where x: "map_of (activeOperations s) i = Some x" "view x = v"
      using Cons.prems(4) by auto
    have dpv: "distinct (map fst pv)" using Cons.prems(2) by simp
    have mv: "map_of pv i = Some v" using dpv iv by simp
    let ?s' = "endOperation s i"
    let ?pv' = "AList.delete i pv"
    note f = active_after_finalize [OF x(1) Cons.prems(3)]
    have 1: "open_finalize_seq (map fst ?pv') cs" using rest by (simp add: delete_keys)
    have 2: "distinct (map fst ?pv' @ map fst (opened cs))"
      using Cons.prems(2) Finalize by (auto simp: delete_keys distinct_removeAll)
    have 4: "\<forall>(j, w) \<in> set ?pv'. \<exists>x. map_of (activeOperations ?s') j = Some x \<and> view x = w"
    proof (clarify)
      fix j w assume jw: "(j, w) \<in> set ?pv'"
      then have "j \<noteq> i" by (auto simp: AList.delete_eq)
      moreover have "(j, w) \<in> set pv" using jw by (auto simp: AList.delete_eq)
      ultimately show "\<exists>x. map_of (activeOperations ?s') j = Some x \<and> view x = w"
        using Cons.prems(4) by (auto simp: f(3))
    qed
    have ih: "getActiveOperations (foldl apply_call ?s' cs) =
           getActiveOperations ?s' @ map (\<lambda>j. the (map_of (?pv' @ opened cs) j)) (finalized cs)"
      using Cons.IH [OF 1 2 f(2) 4] .
    have "i \<notin> fst ` set (opened cs)" using Cons.prems(2) iP Finalize by auto
    moreover have "set (finalized cs) \<subseteq> set (removeAll i (map fst pv)) \<union> fst ` set (opened cs)"
      using rest by (rule finalized_subset)
    ultimately have notin: "i \<notin> set (finalized cs)" by auto
    have "map (\<lambda>j. the (map_of (?pv' @ opened cs) j)) (finalized cs) =
          map (\<lambda>j. the (map_of (pv @ opened cs) j)) (finalized cs)"
      using notin by (auto simp: map_add_def delete_conv' split: option.splits)
    moreover have "the (map_of (pv @ opened cs) i) = v" using mv by (simp add: map_add_def)
    ultimately show ?thesis using ih f(1) x(2) Finalize by simp
  next
    case (Extend i ps)
    then show ?thesis using Cons.prems(1) by simp
  next
    case Undo
    then show ?thesis using Cons.prems(1) by simp
  next
    case Redo
    then show ?thesis using Cons.prems(1) by simp
  next
    case Clear
    then show ?thesis using Cons.prems(1) by simp
  qed
qed

lemma active_of_open_finalize:
  assumes "open_finalize_seq [] cs" and "distinct (map fst (opened cs))"
  shows "getActiveOperations (run cs) = map (\<lambda>i. the (map_of (opened cs) i)) (finalized cs)"
proof -
  have "getActiveOperations (foldl apply_call new_DrawingState cs) =
           getActiveOperations new_DrawingState @ map (\<lambda>i. the (map_of ([] @ opened cs) i)) (finalized cs)"
    by (rule open_finalize_general) (use assms in \<open>simp_all add: new_DrawingState_def\<close>)
  then show ?thesis by (simp add: run_def getActiveOperations_def new_DrawingState_def)
qed

lemma opened_key: "map_of (opened cs) i = Some v \<Longrightarrow> v_id v = i"
  by (induction cs rule: opened.induct) (auto simp: opened_view_def split: if_splits)

text \<open>
  C2. Take a sequence of Open and Finalize calls, run from the empty ledger, in which
  every Finalize names an operation opened earlier and not yet finalized, every opened
  operation is finalized, and the ids handed out by the Open calls are pairwise
  distinct. Then the render list holds exactly the opened operations, each once, in
  the order of the Finalize calls: its ids are the finalized ids in call order, and
  the entry for an id is the operation that was opened under it.
\<close>

theorem active_operations_in_finalize_order:
  assumes "open_finalize_seq [] cs" and "distinct (map fst (opened cs))"
  shows "getActiveOperations (run cs) = map (\<lambda>i. the (map_of (opened cs) i)) (finalized cs) \<and>
         map v_id (getActiveOperations (run cs)) = finalized cs \<and>
         distinct (finalized cs) \<and> set (finalized cs) = fst ` set (opened cs)"
proof -
  have a: "getActiveOperations (run cs) = map (\<lambda>i. the (map_of (opened cs) i)) (finalized cs)"
    using assms by (rule active_of_open_finalize)
  have e: "distinct (finalized cs) \<and> set (finalized cs) = set [] \<union> fst ` set (opened cs)"
    by (rule finalized_exact) (use assms in simp_all)
  have "v_id (the (map_of (opened cs) i)) = i" if "i \<in> set (finalized cs)" for i
  proof -
    from that e have "i \<in> fst ` set (opened cs)" by simp
    then obtain v where "map_of (opened cs) i = Some v"
      by (metis domD dom_map_of_conv_image_fst)
    then show ?thesis by (simp add: opened_key)
  qed
  then have "map v_id (map (\<lambda>i. the (map_of (opened cs) i)) (finalized cs)) = finalized cs"
    by (simp add: map_idI)
  then show ?thesis using a e by simp
qed

theorem active_operations_in_finalize_order_witness:
  "map v_id (getActiveOperations
      (run [Open (sample_stroke ''a'') 1 1, Open (sample_stroke ''b'') 2 2,
            Finalize ''op-b-2'', Finalize ''op-a-1''])) = [''op-b-2'', ''op-a-1'']"
proof -
  let ?cs = "[Open (sample_stroke ''a'') 1 1, Open (sample_stroke ''b'') 2 2,
              Finalize ''op-b-2'', Finalize ''op-a-1'']"
  have h1: "open_finalize_seq [] ?cs" by code_simp
  have h2: "distinct (map fst (opened ?cs))" by code_simp
  have f: "finalized ?cs = [''op-b-2'', ''op-a-1'']" by simp
  from active_operations_in_finalize_order [OF h1 h2]
  have "map v_id (getActiveOperations (run ?cs)) = finalized ?cs" by blast
  then show ?thesis by (simp only: f)
qed

section \<open>Operation ids\<close>

text \<open>
  The id determines the author and the clock reading it was built from: the decimal
  rendering is injective and holds no dash, so the text splits at its last dash.
\<close>

lemma digit_char_code: "d < 10 \<Longrightarrow> of_char (digit_char d) = (48 + d :: nat)"
  by (simp add: digit_char_def)

lemma digit_char_inject: "d < 10 \<Longrightarrow> e < 10 \<Longrightarrow> digit_char d = digit_char e \<Longrightarrow> d = e"
  by (metis add_left_cancel digit_char_code)

lemma show_nat_nonempty: "show_nat n \<noteq> []"
  by (subst show_nat.simps) simp

lemma show_nat_digits: "ch \<in> set (show_nat n) \<Longrightarrow> ch \<noteq> CHR ''-''"
proof (induction n rule: show_nat.induct)
  case (1 n)
  have nd: "digit_char d \<noteq> CHR ''-''" if "d < 10" for d
  proof
    assume "digit_char d = CHR ''-''"
    then have "(of_char (digit_char d) :: nat) = of_char CHR ''-''" by simp
    then show False using that by (simp add: digit_char_code)
  qed
  show ?case
  proof (cases "n < 10")
    case True
    then show ?thesis using 1(2) nd by (subst (asm) show_nat.simps) auto
  next
    case False
    have "ch \<in> set (show_nat (n div 10)) \<or> ch = digit_char (n mod 10)"
      using 1(2) False by (subst (asm) show_nat.simps) auto
    then show ?thesis using 1(1) [OF False] nd [of "n mod 10"] by auto
  qed
qed

lemma show_nat_inject: "show_nat n = show_nat m \<Longrightarrow> n = m"
proof (induction n arbitrary: m rule: show_nat.induct)
  case (1 n)
  show ?case
  proof (cases "n < 10")
    case True
    show ?thesis
    proof (cases "m < 10")
      case True
      with \<open>n < 10\<close> 1(2) show ?thesis
        by (simp add: show_nat.simps [of n] show_nat.simps [of m] digit_char_inject)
    next
      case False
      with \<open>n < 10\<close> 1(2) show ?thesis
        using show_nat_nonempty [of "m div 10"]
        by (simp add: show_nat.simps [of n] show_nat.simps [of m])
    qed
  next
    case False
    show ?thesis
    proof (cases "m < 10")
      case True
      with False 1(2) show ?thesis
        using show_nat_nonempty [of "n div 10"]
        by (simp add: show_nat.simps [of n] show_nat.simps [of m])
    next
      case m: False
      from False m 1(2) have "show_nat (n div 10) = show_nat (m div 10)"
        and "digit_char (n mod 10) = digit_char (m mod 10)"
        by (simp_all add: show_nat.simps [of n] show_nat.simps [of m])
      then have "n div 10 = m div 10" "n mod 10 = m mod 10"
        using 1(1) [OF False] by (simp_all add: digit_char_inject)
      then show ?thesis by (metis div_mult_mod_eq)
    qed
  qed
qed

lemma split_at_last_dash:
  assumes "u @ CHR ''-'' # ds = u' @ CHR ''-'' # ds'"
    and "CHR ''-'' \<notin> set ds" "CHR ''-'' \<notin> set ds'"
  shows "u = u' \<and> ds = ds'"
proof -
  have "takeWhile (\<lambda>ch. ch \<noteq> CHR ''-'') (rev (u @ CHR ''-'' # ds)) = rev ds"
    using assms(2) by (auto simp: takeWhile_tail)
  moreover have "takeWhile (\<lambda>ch. ch \<noteq> CHR ''-'') (rev (u' @ CHR ''-'' # ds')) = rev ds'"
    using assms(3) by (auto simp: takeWhile_tail)
  ultimately have "ds = ds'" using assms(1) by (metis rev_rev_ident)
  then show ?thesis using assms(1) by simp
qed

lemma operationId_of_eq_iff:
  "operationId_of u n = operationId_of u' n' \<longleftrightarrow> u = u' \<and> n = n'"
proof
  assume "operationId_of u n = operationId_of u' n'"
  then have "u @ CHR ''-'' # show_nat n = u' @ CHR ''-'' # show_nat n'"
    by (simp add: operationId_of_def)
  then have "u = u' \<and> show_nat n = show_nat n'"
    by (rule split_at_last_dash) (use show_nat_digits in blast)+
  then show "u = u' \<and> n = n'" by (simp add: show_nat_inject)
qed simp

lemma same_tick_same_id:
  "sd_userId d = sd_userId d' \<Longrightarrow>
   sr_operationId (fst (startOperation s d t a)) = sr_operationId (fst (startOperation s' d' t a'))"
  by (simp add: startOperation_def Let_def)

text \<open>
  C3. The id of an operation is built from the author and one reading of the clock.
  Two Open calls of one author within one clock tick therefore return the same id:
  here the first operation is finalized, the second Open hands out its id again; and
  when both are still pending the second replaces the first in the pending map.
\<close>

theorem operation_id_reused_within_tick:
  "sr_operationId (fst (startOperation new_DrawingState (sample_stroke ''a'') 1000 1000))
     = ''op-a-1000'' \<and>
   map op_id (operations (run [Open (sample_stroke ''a'') 1000 1000, Finalize ''op-a-1000'']))
     = [''op-a-1000''] \<and>
   sr_operationId (fst (startOperation
       (run [Open (sample_stroke ''a'') 1000 1000, Finalize ''op-a-1000''])
       (sample_stroke ''a'') 1000 1000)) = ''op-a-1000'' \<and>
   map fst (activeOperations
       (run [Open (sample_stroke ''a'') 1000 1000, Open (sample_stroke ''a'') 1000 1000]))
     = [''op-a-1000'']"
  by code_simp

section \<open>Finalize twice\<close>

lemma finalize_not_pending: "map_of (activeOperations s) i = None \<Longrightarrow> endOperation s i = s"
  by (simp add: endOperation_def split: option.splits)

text \<open>
  What the lookup order of \<open>endOperation\<close> gives in any state: an id that is not
  pending is left alone, whether or not the history holds it, and since the pending
  entry is deleted on the way, a second call right after the first changes nothing.
\<close>

lemma finalize_idempotent:
  "(map_of (activeOperations s) i = None \<longrightarrow> endOperation s i = s) \<and>
   endOperation (endOperation s i) i = endOperation s i"
proof -
  have "endOperation (endOperation s i) i = endOperation s i"
  proof (cases "map_of (activeOperations s) i")
    case None
    then show ?thesis by (simp add: finalize_not_pending)
  next
    case (Some x)
    then have "map_of (activeOperations (endOperation s i)) i = None"
      by (simp add: endOperation_def delete_conv')
    then show ?thesis by (rule finalize_not_pending)
  qed
  then show ?thesis by (simp add: finalize_not_pending)
qed

lemma finalize_idempotent_example:
  "find_op ''op-a-1'' (operations (run [Open (sample_stroke ''a'') 1 1, Finalize ''op-a-1''])) \<noteq> None \<and>
   endOperation (run [Open (sample_stroke ''a'') 1 1, Finalize ''op-a-1'']) ''op-a-1''
     = run [Open (sample_stroke ''a'') 1 1, Finalize ''op-a-1'']"
proof -
  let ?s = "run [Open (sample_stroke ''a'') 1 1, Finalize ''op-a-1'']"
  have p: "map_of (activeOperations ?s) ''op-a-1'' = None" by code_simp
  have f: "find_op ''op-a-1'' (operations ?s) \<noteq> None" by code_simp
  from finalize_idempotent [of ?s "''op-a-1''"] p f show ?thesis by blast
qed

text \<open>
  C6. Finalize of an id that the history already holds must change nothing. The code
  breaks this in a reachable state: after Open and Finalize, a second Open of the same
  author within the same clock tick hands out the id again (the id reuse of C3), so
  the id is in the history and pending at once. \<open>endOperation\<close> looks into the pending
  map first, never reaches its check for an already finalized id, and appends a second
  entry under the same id: the history grows from one entry to two.
\<close>

theorem finalize_present_id_changes_state:
  "find_op ''op-a-1000''
     (operations (run [Open (sample_stroke ''a'') 1000 1000, Finalize ''op-a-1000'',
                       Open (sample_stroke ''a'') 1000 1000])) \<noteq> None \<and>
   length (operations (run [Open (sample_stroke ''a'') 1000 1000, Finalize ''op-a-1000'',
                            Open (sample_stroke ''a'') 1000 1000])) = 1 \<and>
   length (operations (endOperation
      (run [Open (sample_stroke ''a'') 1000 1000, Finalize ''op-a-1000'',
            Open (sample_stroke ''a'') 1000 1000]) ''op-a-1000'')) = 2 \<and>
   endOperation
      (run [Open (sample_stroke ''a'') 1000 1000, Finalize ''op-a-1000'',
            Open (sample_stroke ''a'') 1000 1000]) ''op-a-1000''
     \<noteq> run [Open (sample_stroke ''a'') 1000 1000, Finalize ''op-a-1000'',
            Open (sample_stroke ''a'') 1000 1000]"
proof -
  let ?s = "run [Open (sample_stroke ''a'') 1000 1000, Finalize ''op-a-1000'',
                 Open (sample_stroke ''a'') 1000 1000]"
  have a: "find_op ''op-a-1000'' (operations ?s) \<noteq> None" by code_simp
  have b: "length (operations ?s) = 1" by code_simp
  have c: "length (operations (endOperation ?s ''op-a-1000'')) = 2" by code_simp
  have "endOperation ?s ''op-a-1000'' \<noteq> ?s"
  proof
    assume "endOperation ?s ''op-a-1000'' = ?s"
    then have "length (operations (endOperation ?s ''op-a-1000'')) = length (operations ?s)"
      by simp
    then show False unfolding b c by simp
  qed
  then show ?thesis using a b c by blast
qed

section \<open>Joining a room: the color cursor\<close>

lemma getRoom_lookup:
  "map_of (rooms (snd (getRoom m rid))) rid = Some (fst (getRoom m rid))"
  by (simp add: getRoom_def update_conv' split: option.splits)

lemma length_update_present:
  "k \<in> fst ` set al \<Longrightarrow> length (AList.update k v al) = length al"
  by (induction al) auto

lemma addUser_result:
  assumes "addUser m rid uid name now = (u, m')"
  shows "u = \<lparr>u_id = uid, u_username = name,
              u_color = userColors ! (colorIndex (fst (getRoom m rid)) mod length userColors),
              u_joinedAt = now\<rparr>"
    and "map_of (rooms m') rid =
           Some ((fst (getRoom m rid))
                   \<lparr>colorIndex := colorIndex (fst (getRoom m rid)) + 1,
                    users := AList.update uid u (users (fst (getRoom m rid)))\<rparr>)"
  using assms by (auto simp: addUser_def Let_def update_conv' split: prod.splits)


lemma addUser_roster:
  assumes "addUser m rid uid name now = (u, m')"
  shows "\<exists>r'. map_of (rooms m') rid = Some r' \<and> map_of (users r') uid = Some u \<and>
              u_username u = name"
proof -
  note a = addUser_result [OF assms]
  show ?thesis using a(1) by (simp add: a(2) update_conv')
qed

text \<open>
  C10. Every \<open>addUser\<close> call leaves the room with its color cursor advanced by exactly
  one (counted from 0 for a room the call creates) and returns a new participant
  record that carries the palette color at the old cursor position and is the roster
  entry of the participant id afterwards. When the id was in the roster already, the
  call replaces that entry in place: the roster keeps its length and its key order.
\<close>

theorem addUser_advances_color_cursor:
  assumes "addUser m rid uid name now = (u, m')"
  shows "\<exists>r'. map_of (rooms m') rid = Some r' \<and>
           colorIndex r' = colorIndex (fst (getRoom m rid)) + 1 \<and>
           u = \<lparr>u_id = uid, u_username = name,
                u_color = userColors ! (colorIndex (fst (getRoom m rid)) mod length userColors),
                u_joinedAt = now\<rparr> \<and>
           map_of (users r') uid = Some u \<and>
           (uid \<in> fst ` set (users (fst (getRoom m rid))) \<longrightarrow>
              length (users r') = length (users (fst (getRoom m rid))) \<and>
              map fst (users r') = map fst (users (fst (getRoom m rid))))"
proof -
  note a = addUser_result [OF assms]
  show ?thesis
    using a(1) by (simp add: a(2) update_conv' length_update_present update_keys)
qed

theorem addUser_advances_color_cursor_witness:
  "colorIndex (the (map_of (rooms (snd (addUser
       (snd (addUser new_RoomManager (JStr ''studio'') ''sock-1'' (JStr ''ann'') 5))
       (JStr ''studio'') ''sock-1'' (JStr ''ann'') 6))) (JStr ''studio''))) = 2 \<and>
   fst (addUser
       (snd (addUser new_RoomManager (JStr ''studio'') ''sock-1'' (JStr ''ann'') 5))
       (JStr ''studio'') ''sock-1'' (JStr ''ann'') 6)
     = \<lparr>u_id = ''sock-1'', u_username = JStr ''ann'', u_color = ''#ef4444'', u_joinedAt = 6\<rparr> \<and>
   length (users (the (map_of (rooms (snd (addUser
       (snd (addUser new_RoomManager (JStr ''studio'') ''sock-1'' (JStr ''ann'') 5))
       (JStr ''studio'') ''sock-1'' (JStr ''ann'') 6))) (JStr ''studio'')))) = 1"
proof -
  let ?m = "snd (addUser new_RoomManager (JStr ''studio'') ''sock-1'' (JStr ''ann'') 5)"
  let ?u = "fst (addUser ?m (JStr ''studio'') ''sock-1'' (JStr ''ann'') 6)"
  let ?m' = "snd (addUser ?m (JStr ''studio'') ''sock-1'' (JStr ''ann'') 6)"
  have h: "addUser ?m (JStr ''studio'') ''sock-1'' (JStr ''ann'') 6 = (?u, ?m')" by simp
  have c0: "colorIndex (fst (getRoom ?m (JStr ''studio''))) = 1" by code_simp
  have p: "''sock-1'' \<in> fst ` set (users (fst (getRoom ?m (JStr ''studio''))))" by code_simp
  have l0: "length (users (fst (getRoom ?m (JStr ''studio'')))) = 1" by code_simp
  have col: "userColors ! (1 mod length userColors) = ''#ef4444''" by code_simp
  from addUser_advances_color_cursor [OF h] obtain r' where
    r': "map_of (rooms ?m') (JStr ''studio'') = Some r'"
    and ci: "colorIndex r' = colorIndex (fst (getRoom ?m (JStr ''studio''))) + 1"
    and u: "?u = \<lparr>u_id = ''sock-1'', u_username = JStr ''ann'',
                u_color = userColors ! (colorIndex (fst (getRoom ?m (JStr ''studio''))) mod length userColors),
                u_joinedAt = 6\<rparr>"
    and len: "''sock-1'' \<in> fst ` set (users (fst (getRoom ?m (JStr ''studio'')))) \<longrightarrow>
              length (users r') = length (users (fst (getRoom ?m (JStr ''studio''))))"
    by blast
  have "colorIndex (the (map_of (rooms ?m') (JStr ''studio''))) = 2"
    using ci by (simp only: r' c0 option.sel; simp)
  moreover have "?u = \<lparr>u_id = ''sock-1'', u_username = JStr ''ann'', u_color = ''#ef4444'', u_joinedAt = 6\<rparr>"
    using u by (simp only: c0 col)
  moreover have "length (users (the (map_of (rooms ?m') (JStr ''studio'')))) = 1"
    using len p by (simp only: r' l0 option.sel; simp)
  ultimately show ?thesis by blast
qed

section \<open>The two color namespaces\<close>

lemma getRoom_existing: "map_of (rooms m) rid = Some r \<Longrightarrow> getRoom m rid = (r, m)"
  by (simp add: getRoom_def)

lemma join_room_result:
  assumes "on_join_room sid c m (Some d) now = (es, c', m')"
  defines "room \<equiv> (if jd_room d = JUndefined then JStr ''default'' else jd_room d)"
  defines "name \<equiv> (if truthy (jd_username d) then jd_username d else JStr (''User'' @ take 4 sid))"
  defines "m1 \<equiv> (if truthy (currentRoom c) then removeUser m (currentRoom c) sid else m)"
  shows "currentRoom c' = room"
    and "currentUser c' = Some (fst (addUser m1 room sid name now))"
    and "m' = snd (addUser m1 room sid name now)"
proof -
  obtain u m2 where au: "addUser m1 room sid name now = (u, m2)" by fastforce
  have look: "map_of (rooms m2) room \<noteq> None"
    using addUser_result(2) [OF au] by simp
  then obtain r where "map_of (rooms m2) room = Some r" by auto
  then have gs: "snd (getRoomState m2 room) = m2"
    by (simp add: getRoomState_def getRoom_existing)
  have "c' = \<lparr>currentRoom = room, currentUser = Some u\<rparr> \<and> m' = snd (getRoomState m2 room)"
    using assms(1) au
    by (auto simp: on_join_room_def Let_def room_def name_def m1_def split: prod.splits)
  then show "currentRoom c' = room" "currentUser c' = Some (fst (addUser m1 room sid name now))"
    "m' = snd (addUser m1 room sid name now)"
    using au gs by simp_all
qed

lemma join_room_joined:
  assumes "on_join_room sid c m (Some d) now = (es, c', m')" and "truthy (currentRoom c')"
  shows "joined sid c' m'"
proof -
  let ?room = "(if jd_room d = JUndefined then JStr ''default'' else jd_room d)"
  let ?name = "(if truthy (jd_username d) then jd_username d else JStr (''User'' @ take 4 sid))"
  let ?m1 = "(if truthy (currentRoom c) then removeUser m (currentRoom c) sid else m)"
  note j = join_room_result [OF assms(1)]
  obtain u m2 where au: "addUser ?m1 ?room sid ?name now = (u, m2)" by fastforce
  from addUser_roster [OF au]
  obtain r' where "map_of (rooms m2) ?room = Some r'" "map_of (users r') sid = Some u" by blast
  then show ?thesis
    using assms(2) j au by (simp add: joined_def)
qed

text \<open>
  C8. For a joined sender, the \<open>draw-start\<close> handler tells the sender the operation id
  and broadcasts to the other members of the room a stroke start whose color, width
  and tool are those of the event payload, whatever color the roster holds for the
  sender; the \<open>cursor-move\<close> handler broadcasts to the other members a presence event
  whose color is the color of the sender's roster entry, the one the registry assigned
  on join, whatever the payload holds.
\<close>

theorem stroke_style_and_presence_color:
  assumes "joined sid c m"
  shows "\<exists>u r. currentUser c = Some u \<and> map_of (rooms m) (currentRoom c) = Some r \<and>
           map_of (users r) sid = Some u \<and>
           fst (on_draw_start sid c m (Some d) now_id now_ts) =
             [ToSender (OperationStarted (operationId_of sid now_id)),
              ToOthers (currentRoom c)
                (RemoteDrawStart
                   \<lparr>rds_userId = sid, rds_username = u_username u,
                    rds_color = dd_color d, rds_width = dd_width d, rds_tool = dd_tool d,
                    rds_operationId = operationId_of sid now_id,
                    rds_x = dd_x d, rds_y = dd_y d\<rparr>)] \<and>
           on_cursor_move sid c (Some cd) =
             [ToOthers (currentRoom c)
                (RemoteCursor
                   \<lparr>rc_userId = sid, rc_username = u_username u,
                    rc_color = JStr (u_color u), rc_x = cd_x cd, rc_y = cd_y cd\<rparr>)]"
proof -
  from assms obtain u r where u: "currentUser c = Some u"
    and r: "map_of (rooms m) (currentRoom c) = Some r"
    and ur: "map_of (users r) sid = Some u" and t: "truthy (currentRoom c)"
    by (auto simp: joined_def split: option.splits)
  have "fst (on_draw_start sid c m (Some d) now_id now_ts) =
             [ToSender (OperationStarted (operationId_of sid now_id)),
              ToOthers (currentRoom c)
                (RemoteDrawStart
                   \<lparr>rds_userId = sid, rds_username = u_username u,
                    rds_color = dd_color d, rds_width = dd_width d, rds_tool = dd_tool d,
                    rds_operationId = operationId_of sid now_id,
                    rds_x = dd_x d, rds_y = dd_y d\<rparr>)]"
    using u r ur t
    by (simp add: on_draw_start_def rm_startOperation_def getRoom_existing startOperation_def Let_def)
  moreover have "on_cursor_move sid c (Some cd) =
             [ToOthers (currentRoom c)
                (RemoteCursor
                   \<lparr>rc_userId = sid, rc_username = u_username u,
                    rc_color = JStr (u_color u), rc_x = cd_x cd, rc_y = cd_y cd\<rparr>)]"
    using u t by (simp add: on_cursor_move_def)
  ultimately show ?thesis using u r ur by simp
qed

theorem stroke_style_and_presence_color_witness:
  "on_cursor_move ''sock-1''
      (fst (snd (on_join_room ''sock-1'' new_conn new_RoomManager (Some sample_join) 5)))
      (Some sample_cursor)
     = [ToOthers (JStr ''studio'')
          (RemoteCursor \<lparr>rc_userId = ''sock-1'', rc_username = JStr ''ann'',
                         rc_color = JStr ''#3b82f6'', rc_x = JNum 8, rc_y = JNum 9\<rparr>)] \<and>
   fst (on_draw_start ''sock-1''
      (fst (snd (on_join_room ''sock-1'' new_conn new_RoomManager (Some sample_join) 5)))
      (snd (snd (on_join_room ''sock-1'' new_conn new_RoomManager (Some sample_join) 5)))
      (Some sample_draw) 7 7)
     = [ToSender (OperationStarted ''op-sock-1-7''),
        ToOthers (JStr ''studio'')
          (RemoteDrawStart \<lparr>rds_userId = ''sock-1'', rds_username = JStr ''ann'',
                            rds_color = JStr ''#112233'', rds_width = JNum 3,
                            rds_tool = JStr ''line'', rds_operationId = ''op-sock-1-7'',
                            rds_x = JNum 4, rds_y = JNum 5\<rparr>)]"
proof -
  let ?j = "on_join_room ''sock-1'' new_conn new_RoomManager (Some sample_join) 5"
  let ?c = "fst (snd ?j)"
  let ?m = "snd (snd ?j)"
  have h: "joined ''sock-1'' ?c ?m" by code_simp
  have cu: "currentUser ?c = Some \<lparr>u_id = ''sock-1'', u_username = JStr ''ann'',
                                  u_color = ''#3b82f6'', u_joinedAt = 5\<rparr>" by code_simp
  have cr: "currentRoom ?c = JStr ''studio''" by code_simp
  have oi: "operationId_of ''sock-1'' 7 = ''op-sock-1-7''" by code_simp
  from stroke_style_and_presence_color [OF h, of sample_draw 7 7 sample_cursor]
  obtain u where u: "currentUser ?c = Some u"
    and ds: "fst (on_draw_start ''sock-1'' ?c ?m (Some sample_draw) 7 7) =
             [ToSender (OperationStarted (operationId_of ''sock-1'' 7)),
              ToOthers (currentRoom ?c)
                (RemoteDrawStart
                   \<lparr>rds_userId = ''sock-1'', rds_username = u_username u,
                    rds_color = dd_color sample_draw, rds_width = dd_width sample_draw,
                    rds_tool = dd_tool sample_draw,
                    rds_operationId = operationId_of ''sock-1'' 7,
                    rds_x = dd_x sample_draw, rds_y = dd_y sample_draw\<rparr>)]"
    and cm: "on_cursor_move ''sock-1'' ?c (Some sample_cursor) =
             [ToOthers (currentRoom ?c)
                (RemoteCursor
                   \<lparr>rc_userId = ''sock-1'', rc_username = u_username u,
                    rc_color = JStr (u_color u), rc_x = cd_x sample_cursor,
                    rc_y = cd_y sample_cursor\<rparr>)]"
    by blast
  from u cu have ueq: "u = \<lparr>u_id = ''sock-1'', u_username = JStr ''ann'',
                            u_color = ''#3b82f6'', u_joinedAt = 5\<rparr>" by simp
  have "on_cursor_move ''sock-1'' ?c (Some sample_cursor)
     = [ToOthers (JStr ''studio'')
          (RemoteCursor \<lparr>rc_userId = ''sock-1'', rc_username = JStr ''ann'',
                         rc_color = JStr ''#3b82f6'', rc_x = JNum 8, rc_y = JNum 9\<rparr>)]"
    unfolding cm cr ueq by (simp add: sample_cursor_def)
  moreover have "fst (on_draw_start ''sock-1'' ?c ?m (Some sample_draw) 7 7)
     = [ToSender (OperationStarted ''op-sock-1-7''),
        ToOthers (JStr ''studio'')
          (RemoteDrawStart \<lparr>rds_userId = ''sock-1'', rds_username = JStr ''ann'',
                            rds_color = JStr ''#112233'', rds_width = JNum 3,
                            rds_tool = JStr ''line'', rds_operationId = ''op-sock-1-7'',
                            rds_x = JNum 4, rds_y = JNum 5\<rparr>)]"
    unfolding ds cr ueq oi by (simp add: sample_draw_def)
  ultimately show ?thesis by blast
qed

section \<open>Join defaults\<close>

text \<open>
  C9, as it holds. On the server, a join payload without a room field joins the sender
  to the room \<open>default\<close>; a payload whose user name is falsy gets the generated name
  \<open>User\<close> followed by the first four characters of the connection id, and any other
  name is stored exactly as sent, at any length. The cap on the length is applied by
  the join form of the client before it sends: the form refuses an empty name, sends
  at most 20 characters of the trimmed name, and sends a room id of at most 30
  characters from \<open>[a-zA-Z0-9_-]\<close>, which is \<open>default\<close> when the room input is blank.
\<close>

theorem join_defaults:
  assumes "on_join_room sid c m (Some d) now = (es, c', m')"
  shows "(jd_room d = JUndefined \<longrightarrow> currentRoom c' = JStr ''default'') \<and>
         (\<exists>u r. currentUser c' = Some u \<and> map_of (rooms m') (currentRoom c') = Some r \<and>
                 map_of (users r) sid = Some u \<and>
                 (\<not> truthy (jd_username d) \<longrightarrow> u_username u = JStr (''User'' @ take 4 sid)) \<and>
                 (truthy (jd_username d) \<longrightarrow> u_username u = jd_username d)) \<and>
         (handleJoin nameInput roomInput = None \<longleftrightarrow> js_trim nameInput = []) \<and>
         (\<forall>p. handleJoin nameInput roomInput = Some p \<longrightarrow>
            (\<exists>n r. jd_username p = JStr n \<and> n = take 20 (js_trim nameInput) \<and>
                    n \<noteq> [] \<and> length n \<le> 20 \<and>
                    jd_room p = JStr r \<and> length r \<le> 30 \<and> list_all room_char r \<and>
                    (js_trim roomInput = [] \<longrightarrow> r = ''default'')))"
proof -
  let ?room = "(if jd_room d = JUndefined then JStr ''default'' else jd_room d)"
  let ?name = "(if truthy (jd_username d) then jd_username d else JStr (''User'' @ take 4 sid))"
  let ?m1 = "(if truthy (currentRoom c) then removeUser m (currentRoom c) sid else m)"
  note j = join_room_result [OF assms]
  obtain u m2 where au: "addUser ?m1 ?room sid ?name now = (u, m2)" by fastforce
  from addUser_roster [OF au]
  obtain r' where r': "map_of (rooms m2) ?room = Some r'" "map_of (users r') sid = Some u"
    and un: "u_username u = ?name" by blast
  have server: "\<exists>u r. currentUser c' = Some u \<and> map_of (rooms m') (currentRoom c') = Some r \<and>
                 map_of (users r) sid = Some u \<and>
                 (\<not> truthy (jd_username d) \<longrightarrow> u_username u = JStr (''User'' @ take 4 sid)) \<and>
                 (truthy (jd_username d) \<longrightarrow> u_username u = jd_username d)"
    using j au r' un by simp
  have room: "jd_room d = JUndefined \<longrightarrow> currentRoom c' = JStr ''default''"
    using j(1) by simp
  have none: "handleJoin nameInput roomInput = None \<longleftrightarrow> js_trim nameInput = []"
    by (simp add: handleJoin_def Let_def)
  have client: "\<exists>n r. jd_username p = JStr n \<and> n = take 20 (js_trim nameInput) \<and>
                    n \<noteq> [] \<and> length n \<le> 20 \<and>
                    jd_room p = JStr r \<and> length r \<le> 30 \<and> list_all room_char r \<and>
                    (js_trim roomInput = [] \<longrightarrow> r = ''default'')"
    if "handleJoin nameInput roomInput = Some p" for p
  proof -
    have ne: "js_trim nameInput \<noteq> []" using that none by auto
    have dflt: "filter room_char (take 30 ''default'') = ''default''" by code_simp
    have cap: "length (filter room_char (take 30 xs)) \<le> 30" for xs
      by (rule order_trans [OF length_filter_le]) simp
    show ?thesis
      using that ne dflt cap
      by (auto simp: handleJoin_def Let_def list_all_iff split: if_splits)
  qed
  show ?thesis using room server none client by blast
qed

theorem join_defaults_witness:
  "currentRoom (fst (snd (on_join_room ''sock-12345'' new_conn new_RoomManager
       (Some \<lparr>jd_username = JStr [], jd_room = JUndefined\<rparr>) 5))) = JStr ''default'' \<and>
   map_option u_username (currentUser (fst (snd (on_join_room ''sock-12345'' new_conn new_RoomManager
       (Some \<lparr>jd_username = JStr [], jd_room = JUndefined\<rparr>) 5)))) = Some (JStr ''Usersock'') \<and>
   handleJoin ''  ann  '' ''  '' = Some \<lparr>jd_username = JStr ''ann'', jd_room = JStr ''default''\<rparr>"
proof -
  let ?d = "\<lparr>jd_username = JStr [], jd_room = JUndefined\<rparr>"
  let ?j = "on_join_room ''sock-12345'' new_conn new_RoomManager (Some ?d) 5"
  have h: "?j = (fst ?j, fst (snd ?j), snd (snd ?j))" by simp
  note t = join_defaults [OF h, of "''  ann  ''" "''  ''"]
  have "currentRoom (fst (snd ?j)) = JStr ''default''" using t by simp
  moreover have "map_option u_username (currentUser (fst (snd ?j))) = Some (JStr ''Usersock'')"
  proof -
    from t obtain u where "currentUser (fst (snd ?j)) = Some u"
      and "\<not> truthy (jd_username ?d) \<longrightarrow> u_username u = JStr (''User'' @ take 4 ''sock-12345'')"
      by blast
    then show ?thesis by simp
  qed
  moreover have "handleJoin ''  ann  '' ''  '' = Some \<lparr>jd_username = JStr ''ann'', jd_room = JStr ''default''\<rparr>"
    by code_simp
  ultimately show ?thesis by blast
qed

text \<open>
  C9, as stated, fails on the server: a payload with an empty room field joins the
  room named by the empty string and no room \<open>default\<close> comes into being, and a name of
  26 characters is stored in full. The form of the client sends such an empty room
  field when the room input consists of characters outside the permitted set.
\<close>

theorem join_blank_room_and_long_name:
  "currentRoom (fst (snd (on_join_room ''sock-1'' new_conn new_RoomManager
       (Some \<lparr>jd_username = JStr ''ABCDEFGHIJKLMNOPQRSTUVWXYZ'', jd_room = JStr []\<rparr>) 5))) = JStr [] \<and>
   map_of (rooms (snd (snd (on_join_room ''sock-1'' new_conn new_RoomManager
       (Some \<lparr>jd_username = JStr ''ABCDEFGHIJKLMNOPQRSTUVWXYZ'', jd_room = JStr []\<rparr>) 5))))
     (JStr ''default'') = None \<and>
   map_option u_username (currentUser (fst (snd (on_join_room ''sock-1'' new_conn new_RoomManager
       (Some \<lparr>jd_username = JStr ''ABCDEFGHIJKLMNOPQRSTUVWXYZ'', jd_room = JStr []\<rparr>) 5))))
     = Some (JStr ''ABCDEFGHIJKLMNOPQRSTUVWXYZ'') \<and>
   length ''ABCDEFGHIJKLMNOPQRSTUVWXYZ'' = 26 \<and>
   handleJoin ''ann'' ''!!!'' = Some \<lparr>jd_username = JStr ''ann'', jd_room = JStr []\<rparr>"
  by code_simp

end
